theory Spec2Isabelle
  imports Main
begin

section \<open>The annotator service of pdf2article\<close>

text \<open>
  A shallow embedding of \<^verbatim>\<open>AnnotatorService\<close>
  (\<^verbatim>\<open>src/frontend/src/app/modules/annotator-module/annotator.service.ts\<close>).

  Conventions of the embedding:
  \<^item> a TypeScript \<^verbatim>\<open>number\<close> (pixel offsets of mouse events, page indices, pairing
    keys, the article counter) holds an integer and is an \<^typ>\<open>int\<close>; the one piece of
    arithmetic that the service repeats without bound, the increment of the article
    counter, is the increment of a double (\<open>number_inc\<close> below);
  \<^item> the optional field \<^verbatim>\<open>pairKey?\<close> is compared with the strict \<^verbatim>\<open>!==\<close>, which
    tells \<^verbatim>\<open>undefined\<close> (the field is absent, as on a region that the canvas makes) from
    \<^verbatim>\<open>null\<close> (as in a region loaded from JSON), so it has the three-valued type
    \<open>js_opt\<close>;
  \<^item> the optional field \<^verbatim>\<open>tag?\<close> and the fields \<^verbatim>\<open>annotationType\<close> and
    \<^verbatim>\<open>pdf\<close> are only ever compared with a string or read back, so \<^verbatim>\<open>undefined\<close> and
    \<^verbatim>\<open>null\<close> are the one value \<^term>\<open>None\<close> of an \<^typ>\<open>'a option\<close>;
  \<^item> annotation objects live in an explicit object store, a list indexed by reference,
    because the service copies them with \<^verbatim>\<open>Object.assign({}, annotation)\<close> on
    the way in and on the way out, and allocation appends a new object;
  \<^item> every method that mutates \<^verbatim>\<open>this\<close> takes the service record and returns the
    updated one.
\<close>

subsection \<open>Data\<close>

datatype AnnotationType = Article | Author | Title | Content

text \<open>The string value of each member of the enum \<^verbatim>\<open>AnnotationType\<close>.\<close>

fun AnnotationType_value :: "AnnotationType \<Rightarrow> string" where
  "AnnotationType_value Article = ''article''"
| "AnnotationType_value Author = ''author''"
| "AnnotationType_value Title = ''title''"
| "AnnotationType_value Content = ''content''"

text \<open>
  A value that may be \<^verbatim>\<open>undefined\<close> or \<^verbatim>\<open>null\<close>. Strict equality \<^verbatim>\<open>===\<close> on such
  values is the equality of this type.
\<close>

datatype 'a js_opt = Undefined | Null | Defined 'a

text \<open>
  The interface \<^verbatim>\<open>Annotation\<close>. Its fields \<^verbatim>\<open>x, y, xEnd, yEnd, page, pairKey, tag\<close>
  carry the prefix \<open>a_\<close> here, so that \<open>x\<close>, \<open>y\<close> and \<open>page\<close> stay free for the
  parameters of the methods.
\<close>

record Annotation =
  a_x :: int
  a_y :: int
  a_xEnd :: int
  a_yEnd :: int
  a_page :: int
  a_pairKey :: "int js_opt"
  a_tag :: "string option"

record IPageDimensions =
  width :: int
  height :: int

record IPageProperties =
  pageIndex :: int
  pageDimensions :: IPageDimensions

datatype WorkMode = Create | Delete

subsection \<open>The object store\<close>

text \<open>
  A reference is an index into the store. \<open>alloc\<close> is the creation of a new object:
  it gets the next free reference. \<open>assign_copy\<close> is
  \<^verbatim>\<open>Object.assign({}, annotation)\<close>: a new object with the fields of the given one
  (all fields are numbers and strings, so the copy shares nothing with its source).
\<close>

type_synonym ref = nat

type_synonym heap = "Annotation list"

definition alloc :: "Annotation \<Rightarrow> heap \<Rightarrow> ref \<times> heap" where
  "alloc v h = (length h, h @ [v])"

definition assign_copy :: "ref \<Rightarrow> heap \<Rightarrow> ref \<times> heap" where
  "assign_copy r h = alloc (h ! r) h"

text \<open>
  \<^verbatim>\<open>refs.map(annotation => Object.assign({}, annotation))\<close>: one copy for each
  element, from left to right.
\<close>

fun map_assign_copy :: "ref list \<Rightarrow> heap \<Rightarrow> ref list \<times> heap" where
  "map_assign_copy [] h = ([], h)"
| "map_assign_copy (r # rs) h =
     (case assign_copy r h of (r', h1) \<Rightarrow>
        (case map_assign_copy rs h1 of (rs', h2) \<Rightarrow> (r' # rs', h2)))"

text \<open>An assignment to the fields of the object behind a reference, by any holder of it.\<close>

definition mutate :: "ref \<Rightarrow> Annotation \<Rightarrow> heap \<Rightarrow> heap" where
  "mutate r v h = (if r < length h then h[r := v] else h)"

subsection \<open>The behaviour subject holding the work mode\<close>

text \<open>
  \<^verbatim>\<open>BehaviorSubject\<close> of rxjs: it holds a current value; \<^verbatim>\<open>next\<close> replaces the value
  and delivers it to every subscriber; a new subscriber receives the current value at
  once. Each subscriber is represented by the list of the values delivered to it, oldest
  first.
\<close>

record 'a BehaviorSubject =
  bs_value :: 'a
  bs_observers :: "'a list list"

definition bs_new :: "'a \<Rightarrow> 'a BehaviorSubject" where
  "bs_new v = \<lparr>bs_value = v, bs_observers = []\<rparr>"

definition bs_next :: "'a \<Rightarrow> 'a BehaviorSubject \<Rightarrow> 'a BehaviorSubject" where
  "bs_next v b = \<lparr>bs_value = v, bs_observers = map (\<lambda>seen. seen @ [v]) (bs_observers b)\<rparr>"

definition bs_subscribe :: "'a BehaviorSubject \<Rightarrow> 'a BehaviorSubject" where
  "bs_subscribe b = b\<lparr>bs_observers := bs_observers b @ [[bs_value b]]\<rparr>"

subsection \<open>The service\<close>

text \<open>The document and its pages are opaque handles of the PDF library.\<close>

type_synonym handle = nat

record AnnotatorService =
  pdf :: "handle option"
  pages :: "handle list"
  annotations :: "ref list"
  annotationType :: "AnnotationType option"
  articleID :: int
  pagesProperties :: "IPageProperties list"
  workMode :: "WorkMode BehaviorSubject"

text \<open>The field initialisers of the class.\<close>

definition initial :: AnnotatorService where
  "initial = \<lparr>pdf = None, pages = [], annotations = [], annotationType = None,
              articleID = 0, pagesProperties = [],
              workMode = bs_new Create\<rparr>"

definition clear :: "AnnotatorService \<Rightarrow> AnnotatorService" where
  "clear s = s\<lparr>annotations := [], articleID := 0, annotationType := None,
               workMode := bs_next Create (workMode s),
               pagesProperties := [], pdf := None\<rparr>"

definition setAnnotation :: "ref \<Rightarrow> heap \<times> AnnotatorService \<Rightarrow> heap \<times> AnnotatorService" where
  "setAnnotation annotation hs =
     (case hs of (h, s) \<Rightarrow>
        (case assign_copy annotation h of (r, h') \<Rightarrow>
           (h', s\<lparr>annotations := annotations s @ [r]\<rparr>)))"

definition setServerAnnotations ::
    "ref list \<Rightarrow> heap \<times> AnnotatorService \<Rightarrow> heap \<times> AnnotatorService" where
  "setServerAnnotations rs hs = fold setAnnotation rs hs"

definition getAnnotations :: "int \<Rightarrow> heap \<Rightarrow> AnnotatorService \<Rightarrow> ref list \<times> heap" where
  "getAnnotations page h s =
     map_assign_copy (filter (\<lambda>annotation. a_page (h ! annotation) = page) (annotations s)) h"

definition getAnnotationType :: "AnnotatorService \<Rightarrow> AnnotationType option" where
  "getAnnotationType s = annotationType s"

definition setAnnotationType :: "AnnotationType \<Rightarrow> AnnotatorService \<Rightarrow> AnnotatorService" where
  "setAnnotationType type s =
     s\<lparr>annotationType := Some type, workMode := bs_next Create (workMode s)\<rparr>"

text \<open>\<^verbatim>\<open>Array.prototype.findIndex\<close>: the index of the first element that satisfies
  the predicate, and \<open>-1\<close> when there is none.\<close>

fun findIndex :: "('a \<Rightarrow> bool) \<Rightarrow> 'a list \<Rightarrow> int" where
  "findIndex P [] = - 1"
| "findIndex P (v # vs) =
     (if P v then 0 else (let i = findIndex P vs in if i = - 1 then - 1 else i + 1))"

definition setPagesProperties :: "IPageProperties \<Rightarrow> AnnotatorService \<Rightarrow> AnnotatorService" where
  "setPagesProperties pageProperties s =
     (if findIndex (\<lambda>page. pageIndex page = pageIndex pageProperties) (pagesProperties s) = - 1
      then s\<lparr>pagesProperties := pagesProperties s @ [pageProperties]\<rparr>
      else s)"

definition flushAnnotations :: "AnnotatorService \<Rightarrow> AnnotatorService" where
  "flushAnnotations s = s\<lparr>annotations := []\<rparr>"

text \<open>
  \<^verbatim>\<open>saveMetadata\<close> posts \<^verbatim>\<open>{ payload, pagesProperties }\<close> to
  \<^verbatim>\<open>/api/training/metadata/${id}\<close>; the request is the value here. The payload is an
  array of the stored objects; \<open>serialized\<close> gives the field values that go on the wire.
\<close>

record envelope =
  env_payload :: "ref list"
  env_pagesProperties :: "IPageProperties list"

definition saveMetadata :: "string \<Rightarrow> heap \<Rightarrow> AnnotatorService \<Rightarrow> string \<times> envelope" where
  "saveMetadata ident h s =
     (let payload = filter (\<lambda>annotation. a_tag (h ! annotation) \<noteq> Some (AnnotationType_value Article))
                      (annotations s);
          pagesProperties' = pagesProperties s
      in (''/api/training/metadata/'' @ ident,
          \<lparr>env_payload = payload, env_pagesProperties = pagesProperties'\<rparr>))"

definition serialized :: "heap \<Rightarrow> ref list \<Rightarrow> Annotation list" where
  "serialized h rs = map (\<lambda>r. h ! r) rs"

definition hasAnnotation :: "int \<Rightarrow> int \<Rightarrow> int \<Rightarrow> Annotation \<Rightarrow> bool" where
  "hasAnnotation x y page annotation =
     (x \<ge> a_x annotation \<and> x \<le> (a_xEnd annotation + a_x annotation) \<and>
      y \<ge> a_y annotation \<and> y \<le> (a_yEnd annotation + a_y annotation) \<and>
      page = a_page annotation)"

definition getAnnotationFromCoords ::
    "int \<Rightarrow> int \<Rightarrow> int \<Rightarrow> heap \<Rightarrow> AnnotatorService \<Rightarrow> ref list" where
  "getAnnotationFromCoords x y page h s =
     filter (\<lambda>annotation. hasAnnotation x y page (h ! annotation)) (annotations s)"

definition getArticle :: "int \<Rightarrow> int \<Rightarrow> int \<Rightarrow> heap \<Rightarrow> AnnotatorService \<Rightarrow> ref list" where
  "getArticle x y page h s =
     filter (\<lambda>annotation. a_tag (h ! annotation) = Some (AnnotationType_value Article))
       (getAnnotationFromCoords x y page h s)"

definition removeArticle :: "ref \<Rightarrow> heap \<Rightarrow> AnnotatorService \<Rightarrow> AnnotatorService" where
  "removeArticle article h s =
     s\<lparr>annotations :=
         filter (\<lambda>annotation. a_pairKey (h ! annotation) \<noteq> a_pairKey (h ! article)) (annotations s)\<rparr>"

text \<open>\<^verbatim>\<open>Array.prototype.find\<close> is \<^const>\<open>List.find\<close>: the first element that satisfies
  the predicate, \<^term>\<open>None\<close> for \<^verbatim>\<open>undefined\<close>. An object is truthy.\<close>

definition remove :: "int \<Rightarrow> int \<Rightarrow> int \<Rightarrow> heap \<Rightarrow> AnnotatorService \<Rightarrow> AnnotatorService" where
  "remove x y page h s =
     (let annotations' = getAnnotationFromCoords x y page h s;
          article = List.find (\<lambda>annotation. a_tag (h ! annotation) = Some (AnnotationType_value Article))
                      annotations'
      in (case article of
            Some article' \<Rightarrow> removeArticle article' h s
          | None \<Rightarrow>
              s\<lparr>annotations :=
                  filter (\<lambda>annotation. \<not> hasAnnotation x y page (h ! annotation)) (annotations s)\<rparr>))"

text \<open>
  \<^verbatim>\<open>this.articleID++\<close> on a double. The counter starts at 0 and changes by this
  increment and by the reset to 0 only, so it holds an integer from 0 to \<open>2^53\<close>. Below
  \<open>2^53\<close> the sum is exact; at \<open>2^53\<close> the sum \<open>2^53 + 1\<close> is not a double and is rounded
  (to even) back to \<open>2^53\<close>.
\<close>

definition number_inc :: "int \<Rightarrow> int" where
  "number_inc n = (if n < 2 ^ 53 then n + 1 else n)"

definition getNextArticleID :: "AnnotatorService \<Rightarrow> int \<times> AnnotatorService" where
  "getNextArticleID s =
     (let s' = s\<lparr>articleID := number_inc (articleID s)\<rparr> in (articleID s', s'))"

definition setWorkMode :: "WorkMode \<Rightarrow> AnnotatorService \<Rightarrow> AnnotatorService" where
  "setWorkMode mode s = s\<lparr>workMode := bs_next mode (workMode s)\<rparr>"

text \<open>\<^verbatim>\<open>getWorkMode().subscribe(...)\<close>: a new subscriber of the work mode.\<close>

definition subscribeWorkMode :: "AnnotatorService \<Rightarrow> AnnotatorService" where
  "subscribeWorkMode s = s\<lparr>workMode := bs_subscribe (workMode s)\<rparr>"

text \<open>
  \<^verbatim>\<open>fetchPDF\<close> and \<^verbatim>\<open>render\<close> once the PDF library has resolved: the document handle
  is stored, and \<^verbatim>\<open>render\<close> appends the page handles it has fetched.
\<close>

definition fetchPDF :: "handle \<Rightarrow> AnnotatorService \<Rightarrow> AnnotatorService" where
  "fetchPDF doc s = s\<lparr>pdf := Some doc\<rparr>"

definition render :: "handle \<Rightarrow> handle list \<Rightarrow> AnnotatorService \<Rightarrow> AnnotatorService" where
  "render doc fetched s = s\<lparr>pdf := Some doc, pages := pages s @ fetched\<rparr>"

subsection \<open>Well-formed stores, sequences of calls, example data\<close>

text \<open>Every reference held by the service denotes an object of the store.\<close>

definition wf :: "heap \<Rightarrow> AnnotatorService \<Rightarrow> bool" where
  "wf h s = list_all (\<lambda>r. r < length h) (annotations s)"

text \<open>\<open>n\<close> calls of \<^verbatim>\<open>getNextArticleID\<close> in a row, with the values they return.\<close>

fun getNextArticleID_times :: "nat \<Rightarrow> AnnotatorService \<Rightarrow> int list \<times> AnnotatorService" where
  "getNextArticleID_times 0 s = ([], s)"
| "getNextArticleID_times (Suc n) s =
     (case getNextArticleID s of (k, s') \<Rightarrow>
        (case getNextArticleID_times n s' of (ks, s'') \<Rightarrow> (k # ks, s'')))"

text \<open>The invariant of the page registry: no page index is registered twice.\<close>

definition registry_ok :: "AnnotatorService \<Rightarrow> bool" where
  "registry_ok s = distinct (map pageIndex (pagesProperties s))"

text \<open>
  The calls that change the service or the object store. The methods left out
  (\<^verbatim>\<open>getAnnotationType\<close>, \<^verbatim>\<open>saveMetadata\<close>, \<^verbatim>\<open>getArticle\<close>,
  \<^verbatim>\<open>getAnnotationFromCoords\<close>, \<^verbatim>\<open>getTrainingData\<close>, \<^verbatim>\<open>getAnnotationMetadata\<close>,
  \<^verbatim>\<open>getPDFInfo\<close>, \<^verbatim>\<open>fetchPages\<close>) assign to no field and create no annotation.
  \<open>OpMutate\<close> is an assignment by a caller to an annotation object it holds.
\<close>

datatype operation =
    OpClear
  | OpSetServerAnnotations "ref list"
  | OpSetAnnotation ref
  | OpGetAnnotations int
  | OpSetAnnotationType AnnotationType
  | OpSetPagesProperties IPageProperties
  | OpFlushAnnotations
  | OpRemove int int int
  | OpGetNextArticleID
  | OpSetWorkMode WorkMode
  | OpSubscribeWorkMode
  | OpFetchPDF handle
  | OpRender handle "handle list"
  | OpMutate ref Annotation

fun step :: "operation \<Rightarrow> heap \<times> AnnotatorService \<Rightarrow> heap \<times> AnnotatorService" where
  "step OpClear (h, s) = (h, clear s)"
| "step (OpSetServerAnnotations rs) (h, s) = setServerAnnotations rs (h, s)"
| "step (OpSetAnnotation r) (h, s) = setAnnotation r (h, s)"
| "step (OpGetAnnotations page) (h, s) = (snd (getAnnotations page h s), s)"
| "step (OpSetAnnotationType type) (h, s) = (h, setAnnotationType type s)"
| "step (OpSetPagesProperties pageProperties) (h, s) = (h, setPagesProperties pageProperties s)"
| "step OpFlushAnnotations (h, s) = (h, flushAnnotations s)"
| "step (OpRemove x y page) (h, s) = (h, remove x y page h s)"
| "step OpGetNextArticleID (h, s) = (h, snd (getNextArticleID s))"
| "step (OpSetWorkMode mode) (h, s) = (h, setWorkMode mode s)"
| "step OpSubscribeWorkMode (h, s) = (h, subscribeWorkMode s)"
| "step (OpFetchPDF doc) (h, s) = (h, fetchPDF doc s)"
| "step (OpRender doc fetched) (h, s) = (h, render doc fetched s)"
| "step (OpMutate r v) (h, s) = (mutate r v h, s)"

definition run :: "operation list \<Rightarrow> heap \<times> AnnotatorService \<Rightarrow> heap \<times> AnnotatorService" where
  "run ops hs = fold step ops hs"

text \<open>The range of the article counter.\<close>

definition counter_ok :: "AnnotatorService \<Rightarrow> bool" where
  "counter_ok s = (0 \<le> articleID s \<and> articleID s \<le> 2 ^ 53)"

text \<open>
  The point test of the specification (its section 4.3), in its words: the pages agree,
  and on each axis the point lies between the smaller and the larger of origin and
  origin + extent. The test of the code is \<open>hasAnnotation\<close>.
\<close>

definition spec_hitTest :: "int \<Rightarrow> int \<Rightarrow> int \<Rightarrow> Annotation \<Rightarrow> bool" where
  "spec_hitTest x y page a =
     (a_page a = page \<and>
      min (a_x a) (a_x a + a_xEnd a) \<le> x \<and> x \<le> max (a_x a) (a_x a + a_xEnd a) \<and>
      min (a_y a) (a_y a + a_yEnd a) \<le> y \<and> y \<le> max (a_y a) (a_y a + a_yEnd a))"


text \<open>
  Example data: an article on page 0 with two labelled regions of its record, one of them
  on page 1, and a region of another record; an article whose pairing key is absent, with
  a region on page 5 whose key is absent and one whose key is \<^verbatim>\<open>null\<close>, and the same
  with an article whose key is \<^verbatim>\<open>null\<close>; two articles of different records under one
  point; an article drawn from (10,10) up and left to (5,5).
\<close>

definition region :: "int \<Rightarrow> int \<Rightarrow> int \<Rightarrow> int \<Rightarrow> int \<Rightarrow> int js_opt \<Rightarrow> string option \<Rightarrow> Annotation" where
  "region x y xEnd yEnd page pairKey tag =
     \<lparr>a_x = x, a_y = y, a_xEnd = xEnd, a_yEnd = yEnd, a_page = page, a_pairKey = pairKey, a_tag = tag\<rparr>"

definition ex_heap :: heap where
  "ex_heap =
     [region 50 50 200 100 0 (Defined 1) (Some ''article''),
      region 60 60 50 20 0 (Defined 1) (Some ''title''),
      region 10 10 30 30 1 (Defined 1) (Some ''content''),
      region 300 300 20 20 0 (Defined 2) (Some ''author'')]"

definition ex_store :: AnnotatorService where
  "ex_store = initial\<lparr>annotations := [0, 1, 2, 3]\<rparr>"

definition ex_heap_unkeyed :: heap where
  "ex_heap_unkeyed =
     [region 50 50 200 100 0 Undefined (Some ''article''),
      region 10 10 30 30 5 Undefined None,
      region 10 10 30 30 5 Null (Some ''title''),
      region 300 300 20 20 0 (Defined 2) (Some ''author'')]"

definition ex_store_unkeyed :: AnnotatorService where
  "ex_store_unkeyed = initial\<lparr>annotations := [0, 1, 2, 3]\<rparr>"

definition ex_heap_null :: heap where
  "ex_heap_null =
     [region 50 50 200 100 0 Null (Some ''article''),
      region 10 10 30 30 5 Null (Some ''title''),
      region 10 10 30 30 5 Undefined None]"

definition ex_store_null :: AnnotatorService where
  "ex_store_null = initial\<lparr>annotations := [0, 1, 2]\<rparr>"

definition ex_heap_two :: heap where
  "ex_heap_two =
     [region 50 50 200 100 0 (Defined 1) (Some ''article''),
      region 40 40 100 100 0 (Defined 2) (Some ''article''),
      region 60 60 50 20 0 (Defined 2) (Some ''title'')]"

definition ex_store_two :: AnnotatorService where
  "ex_store_two = initial\<lparr>annotations := [0, 1, 2]\<rparr>"

definition ex_heap_up_left :: heap where
  "ex_heap_up_left =
     [region 10 10 (- 5) (- 5) 0 (Defined 1) (Some ''article''),
      region 20 20 5 5 0 (Defined 1) (Some ''title'')]"

definition ex_store_up_left :: AnnotatorService where
  "ex_store_up_left = initial\<lparr>annotations := [0, 1]\<rparr>"

definition ex_page :: "int \<Rightarrow> int \<Rightarrow> int \<Rightarrow> IPageProperties" where
  "ex_page i w ht = \<lparr>pageIndex = i, pageDimensions = \<lparr>width = w, height = ht\<rparr>\<rparr>"

section \<open>Properties\<close>

subsection \<open>Hit testing\<close>


lemma hasAnnotation_negative_extent:
  "a_xEnd a < 0 \<or> a_yEnd a < 0 \<Longrightarrow> \<not> hasAnnotation x y page a"
  by (auto simp: hasAnnotation_def)

text \<open>
  C1. The claim: \<open>hasAnnotation\<close> holds exactly when the pages agree and the point lies
  between the smaller and the larger of origin and origin + extent on each axis, so that
  origin (10,10) with extent (-5,-5) matches the points of origin (5,5) with extent (5,5).
  The code compares against \<open>x\<close> and \<open>xEnd + x\<close> in that order only: the point (7,7) of
  page 0 lies in the second region and not in the first, which the canvas produces by a
  drag from (10,10) up and left to (5,5).
\<close>

theorem hasAnnotation_drag_up_left:
  "\<not> hasAnnotation 7 7 0 (region 10 10 (- 5) (- 5) 0 Undefined None) \<and>
   hasAnnotation 7 7 0 (region 5 5 5 5 0 Undefined None)"
  by (simp add: hasAnnotation_def region_def)

subsection \<open>Removal\<close>



lemma remove_Some:
  assumes "List.find (\<lambda>r. a_tag (h ! r) = Some (AnnotationType_value Article))
             (getAnnotationFromCoords x y page h s) = Some article"
  shows "remove x y page h s =
         s\<lparr>annotations := filter (\<lambda>r. a_pairKey (h ! r) \<noteq> a_pairKey (h ! article)) (annotations s)\<rparr>"
  using assms by (simp add: remove_def removeArticle_def Let_def)




lemmas ex_defs =
  ex_heap_def ex_store_def ex_heap_unkeyed_def ex_store_unkeyed_def ex_heap_null_def
  ex_store_null_def ex_heap_two_def ex_store_two_def ex_heap_up_left_def ex_store_up_left_def
  region_def initial_def

lemmas remove_defs =
  remove_def removeArticle_def getAnnotationFromCoords_def hasAnnotation_def spec_hitTest_def
  Let_def

text \<open>
  An article drawn up and left, with a title of its record elsewhere: the point (7,7)
  lies in the article by the test of the specification, and \<open>remove\<close> there deletes
  nothing, since \<open>hasAnnotation\<close> holds of no point for this region (see C1).
\<close>

lemma remove_up_left_article:
  "spec_hitTest 7 7 0 (ex_heap_up_left ! 0) \<and>
   a_tag (ex_heap_up_left ! 0) = Some (AnnotationType_value Article) \<and>
   annotations (remove 7 7 0 ex_heap_up_left ex_store_up_left) = [0, 1]"
  by (simp add: ex_defs remove_defs)




text \<open>
  C3, as stated, fails where one pairing key is absent and another is \<^verbatim>\<open>null\<close>: the
  article of \<open>ex_heap_unkeyed\<close> (reference 0) has no pairing key and lies under the
  point (70,70) of page 0; the region with reference 2 has the pairing key \<^verbatim>\<open>null\<close>,
  and after \<open>remove\<close> it is still in the store, since
  \<^verbatim>\<open>null !== undefined\<close> holds.
\<close>

theorem remove_null_key_survives:
  "annotations ex_store_unkeyed = [0, 1, 2, 3] \<and>
   hasAnnotation 70 70 0 (ex_heap_unkeyed ! 0) \<and>
   a_tag (ex_heap_unkeyed ! 0) = Some (AnnotationType_value Article) \<and>
   a_pairKey (ex_heap_unkeyed ! 0) = Undefined \<and>
   a_pairKey (ex_heap_unkeyed ! 2) = Null \<and>
   annotations (remove 70 70 0 ex_heap_unkeyed ex_store_unkeyed) = [2, 3]"
  by (simp add: ex_defs remove_defs)

text \<open>
  C3, amended. When the Article that \<open>remove\<close> finds under the point has an unset
  pairing key, every region of the store whose pairing key is unset in the same way
  (absent when the Article's is absent, \<^verbatim>\<open>null\<close> when the Article's is \<^verbatim>\<open>null\<close>) is
  taken out, on any page and at any position, and every other region stays, in order.
\<close>

theorem remove_unkeyed_article:
  "List.find (\<lambda>r. a_tag (h ! r) = Some (AnnotationType_value Article))
     (getAnnotationFromCoords x y page h s) = Some article \<Longrightarrow>
   (a_pairKey (h ! article) = Undefined \<longrightarrow>
      remove x y page h s =
        s\<lparr>annotations := filter (\<lambda>r. a_pairKey (h ! r) \<noteq> Undefined) (annotations s)\<rparr> \<and>
      list_all (\<lambda>r. a_pairKey (h ! r) \<noteq> Undefined) (annotations (remove x y page h s))) \<and>
   (a_pairKey (h ! article) = Null \<longrightarrow>
      remove x y page h s =
        s\<lparr>annotations := filter (\<lambda>r. a_pairKey (h ! r) \<noteq> Null) (annotations s)\<rparr> \<and>
      list_all (\<lambda>r. a_pairKey (h ! r) \<noteq> Null) (annotations (remove x y page h s)))"
  by (simp add: remove_Some list_all_iff)

theorem remove_unkeyed_article_witness:
  "List.find (\<lambda>r. a_tag (ex_heap_unkeyed ! r) = Some (AnnotationType_value Article))
     (getAnnotationFromCoords 70 70 0 ex_heap_unkeyed ex_store_unkeyed) = Some 0 \<and>
   a_pairKey (ex_heap_unkeyed ! 0) = Undefined \<and>
   a_pairKey (ex_heap_unkeyed ! 1) = Undefined \<and>
   a_page (ex_heap_unkeyed ! 1) = 5 \<and>
   \<not> hasAnnotation 70 70 0 (ex_heap_unkeyed ! 1) \<and>
   annotations ex_store_unkeyed = [0, 1, 2, 3] \<and>
   annotations (remove 70 70 0 ex_heap_unkeyed ex_store_unkeyed) = [2, 3] \<and>
   List.find (\<lambda>r. a_tag (ex_heap_null ! r) = Some (AnnotationType_value Article))
     (getAnnotationFromCoords 70 70 0 ex_heap_null ex_store_null) = Some 0 \<and>
   a_pairKey (ex_heap_null ! 0) = Null \<and>
   a_pairKey (ex_heap_null ! 1) = Null \<and>
   a_page (ex_heap_null ! 1) = 5 \<and>
   \<not> hasAnnotation 70 70 0 (ex_heap_null ! 1) \<and>
   annotations ex_store_null = [0, 1, 2] \<and>
   annotations (remove 70 70 0 ex_heap_null ex_store_null) = [2]"
  using remove_unkeyed_article [of ex_heap_unkeyed 70 70 0 ex_store_unkeyed 0]
    remove_unkeyed_article [of ex_heap_null 70 70 0 ex_store_null 0]
  by (simp add: ex_defs remove_defs)

subsection \<open>Flush and clear\<close>

text \<open>
  C4. \<open>flushAnnotations\<close> empties the list of regions, so that \<open>getAnnotations\<close> returns
  the empty list for every page and creates no object, and leaves the page registry, the
  article counter, the annotation type, the work mode and the document handle (and the
  rendered pages) as they were.
\<close>

theorem flushAnnotations_frame:
  "annotations (flushAnnotations s) = [] \<and>
   getAnnotations page h (flushAnnotations s) = ([], h) \<and>
   pagesProperties (flushAnnotations s) = pagesProperties s \<and>
   articleID (flushAnnotations s) = articleID s \<and>
   annotationType (flushAnnotations s) = annotationType s \<and>
   workMode (flushAnnotations s) = workMode s \<and>
   pdf (flushAnnotations s) = pdf s \<and>
   pages (flushAnnotations s) = pages s"
  by (simp add: flushAnnotations_def getAnnotations_def)

text \<open>
  C5. After \<open>clear\<close> the list of regions is empty, the article counter is 0, the
  annotation type is unset, the work mode is \<open>Create\<close>, the page registry is empty and
  the document handle is unset: each of these fields has the value it has in the initial
  state of the service. (The subject of the work mode is kept, with its subscribers, and
  the list of rendered pages is not touched.)
\<close>

theorem clear_resets:
  "annotations (clear s) = [] \<and> annotations (clear s) = annotations initial \<and>
   articleID (clear s) = 0 \<and> articleID (clear s) = articleID initial \<and>
   annotationType (clear s) = None \<and> annotationType (clear s) = annotationType initial \<and>
   bs_value (workMode (clear s)) = Create \<and>
   bs_value (workMode (clear s)) = bs_value (workMode initial) \<and>
   pagesProperties (clear s) = [] \<and> pagesProperties (clear s) = pagesProperties initial \<and>
   pdf (clear s) = None \<and> pdf (clear s) = pdf initial \<and>
   clear s = initial\<lparr>pages := pages s, workMode := bs_next Create (workMode s)\<rparr>"
  by (simp add: clear_def initial_def bs_next_def bs_new_def)

subsection \<open>The page registry\<close>

lemma findIndex_ge: "- 1 \<le> findIndex P xs"
  by (induction xs) (auto simp: Let_def)

lemma findIndex_none_iff: "findIndex P xs = - 1 \<longleftrightarrow> (\<forall>v\<in>set xs. \<not> P v)"
proof (induction xs)
  case Nil
  then show ?case by simp
next
  case (Cons v vs)
  have "findIndex P vs + 1 \<noteq> - 1"
    using findIndex_ge [of P vs] by arith
  with Cons show ?case by (auto simp: Let_def)
qed

lemma setPagesProperties_absent:
  "pageIndex p \<notin> pageIndex ` set (pagesProperties s) \<Longrightarrow>
   setPagesProperties p s = s\<lparr>pagesProperties := pagesProperties s @ [p]\<rparr>"
proof -
  assume "pageIndex p \<notin> pageIndex ` set (pagesProperties s)"
  then have "\<forall>v\<in>set (pagesProperties s). pageIndex v \<noteq> pageIndex p"
    by (metis image_eqI)
  then have "findIndex (\<lambda>page. pageIndex page = pageIndex p) (pagesProperties s) = - 1"
    by (simp add: findIndex_none_iff)
  then show ?thesis by (simp add: setPagesProperties_def)
qed

lemma setPagesProperties_present:
  "pageIndex p \<in> pageIndex ` set (pagesProperties s) \<Longrightarrow> setPagesProperties p s = s"
proof -
  assume "pageIndex p \<in> pageIndex ` set (pagesProperties s)"
  then have "\<exists>v\<in>set (pagesProperties s). pageIndex v = pageIndex p"
    by (metis imageE)
  then have "findIndex (\<lambda>page. pageIndex page = pageIndex p) (pagesProperties s) \<noteq> - 1"
    by (simp add: findIndex_none_iff)
  then show ?thesis by (simp add: setPagesProperties_def)
qed

lemma registry_ok_setPagesProperties:
  "registry_ok s \<Longrightarrow> registry_ok (setPagesProperties p s)"
proof (cases "pageIndex p \<in> pageIndex ` set (pagesProperties s)")
  case True
  assume "registry_ok s"
  with True show ?thesis by (simp add: setPagesProperties_present)
next
  case False
  assume "registry_ok s"
  with False show ?thesis by (simp add: setPagesProperties_absent registry_ok_def)
qed

lemma pagesProperties_setAnnotation:
  "pagesProperties (snd (setAnnotation r hs)) = pagesProperties (snd hs)"
  by (simp add: setAnnotation_def split: prod.splits)

lemma pagesProperties_setServerAnnotations:
  "pagesProperties (snd (setServerAnnotations rs hs)) = pagesProperties (snd hs)"
  unfolding setServerAnnotations_def
  by (induction rs arbitrary: hs) (simp_all add: pagesProperties_setAnnotation)

lemma pagesProperties_remove:
  "pagesProperties (remove x y page h s) = pagesProperties s"
  by (simp add: remove_def removeArticle_def Let_def split: option.splits)

lemma registry_ok_step:
  "registry_ok (snd hs) \<Longrightarrow> registry_ok (snd (step op hs))"
proof (cases hs)
  case (Pair h s)
  assume ok: "registry_ok (snd hs)"
  show ?thesis
  proof (cases op)
    case (OpSetPagesProperties p)
    with ok Pair show ?thesis by (simp add: registry_ok_setPagesProperties)
  next
    case (OpSetServerAnnotations rs)
    with ok Pair show ?thesis
      by (simp add: registry_ok_def pagesProperties_setServerAnnotations)
  next
    case (OpSetAnnotation r)
    with ok Pair show ?thesis
      by (simp add: registry_ok_def pagesProperties_setAnnotation)
  next
    case (OpRemove x y page)
    with ok Pair show ?thesis
      by (simp add: registry_ok_def pagesProperties_remove)
  qed (use ok Pair in \<open>simp_all add: registry_ok_def clear_def setAnnotationType_def
        flushAnnotations_def getNextArticleID_def Let_def setWorkMode_def
        subscribeWorkMode_def fetchPDF_def render_def\<close>)
qed

lemma registry_ok_run:
  "registry_ok (snd hs) \<Longrightarrow> registry_ok (snd (run ops hs))"
  unfolding run_def
  by (induction ops arbitrary: hs) (simp_all add: registry_ok_step)

text \<open>
  C6. The page registry never holds two entries with the same page index: this holds
  initially and after every call, hence in every state that a sequence of calls reaches.
  \<open>setPagesProperties\<close> appends the entry when its index is not registered and changes
  nothing otherwise, so a second registration of an index, with any dimensions, leaves
  the state of the first registration.
\<close>

theorem pagesProperties_unique:
  "registry_ok (snd (run ops (h, initial))) \<and>
   (registry_ok s \<longrightarrow> registry_ok (snd (step op (h, s)))) \<and>
   (pageIndex p \<notin> pageIndex ` set (pagesProperties s) \<longrightarrow>
      setPagesProperties p s = s\<lparr>pagesProperties := pagesProperties s @ [p]\<rparr>) \<and>
   (pageIndex p \<in> pageIndex ` set (pagesProperties s) \<longrightarrow> setPagesProperties p s = s) \<and>
   (pageIndex p' = pageIndex p \<longrightarrow>
      setPagesProperties p' (setPagesProperties p s) = setPagesProperties p s)"
proof (intro conjI impI)
  show "registry_ok (snd (run ops (h, initial)))"
    by (rule registry_ok_run) (simp add: registry_ok_def initial_def)
  show "registry_ok (snd (step op (h, s)))" if "registry_ok s"
    using that registry_ok_step [of "(h, s)" op] by simp
  show "setPagesProperties p s = s\<lparr>pagesProperties := pagesProperties s @ [p]\<rparr>"
    if "pageIndex p \<notin> pageIndex ` set (pagesProperties s)"
    using that by (rule setPagesProperties_absent)
  show "setPagesProperties p s = s" if "pageIndex p \<in> pageIndex ` set (pagesProperties s)"
    using that by (rule setPagesProperties_present)
  show "setPagesProperties p' (setPagesProperties p s) = setPagesProperties p s"
    if "pageIndex p' = pageIndex p"
  proof -
    have "pageIndex p \<in> pageIndex ` set (pagesProperties (setPagesProperties p s))"
      by (cases "pageIndex p \<in> pageIndex ` set (pagesProperties s)")
        (simp_all add: setPagesProperties_present setPagesProperties_absent)
    with that show ?thesis by (simp add: setPagesProperties_present)
  qed
qed

theorem pagesProperties_unique_witness:
  "registry_ok initial \<and>
   registry_ok (snd (step (OpSetPagesProperties (ex_page 3 600 800)) ([], initial))) \<and>
   pageIndex (ex_page 3 600 800) \<notin> pageIndex ` set (pagesProperties initial) \<and>
   pagesProperties (setPagesProperties (ex_page 3 600 800) initial) = [ex_page 3 600 800] \<and>
   pageIndex (ex_page 3 10 20) = pageIndex (ex_page 3 600 800) \<and>
   ex_page 3 10 20 \<noteq> ex_page 3 600 800 \<and>
   pageIndex (ex_page 3 10 20) \<in>
     pageIndex ` set (pagesProperties (setPagesProperties (ex_page 3 600 800) initial)) \<and>
   pagesProperties (setPagesProperties (ex_page 3 10 20)
                      (setPagesProperties (ex_page 3 600 800) initial)) = [ex_page 3 600 800]"
  using pagesProperties_unique [of "[]" "[]" initial "OpSetPagesProperties (ex_page 3 600 800)"
          "ex_page 3 600 800" "ex_page 3 10 20"]
        pagesProperties_unique [of "[]" "[]" "setPagesProperties (ex_page 3 600 800) initial"
          OpClear "ex_page 3 10 20" "ex_page 3 10 20"]
  by (simp add: initial_def ex_page_def registry_ok_def setPagesProperties_def)

subsection \<open>Pairing keys\<close>

text \<open>The counter stays in the range on which \<open>number_inc\<close> is the increment of the
  code.\<close>

lemma counter_ok_step: "counter_ok (snd hs) \<Longrightarrow> counter_ok (snd (step op hs))"
proof (cases hs)
  case (Pair h s)
  assume ok: "counter_ok (snd hs)"
  have fold_set: "articleID (snd (fold setAnnotation rs st)) = articleID (snd st)" for rs st
    by (induction rs arbitrary: st) (simp_all add: setAnnotation_def split: prod.splits)
  show ?thesis
  proof (cases op)
    case (OpSetServerAnnotations rs)
    with ok Pair show ?thesis
      by (simp add: counter_ok_def setServerAnnotations_def fold_set)
  next
    case (OpRemove x y page)
    with ok Pair show ?thesis
      by (simp add: counter_ok_def remove_def removeArticle_def Let_def split: option.splits)
  next
    case OpGetNextArticleID
    with ok Pair show ?thesis
      by (simp add: counter_ok_def getNextArticleID_def number_inc_def Let_def)
  qed (use ok Pair in \<open>simp_all add: counter_ok_def clear_def setAnnotation_def
        setAnnotationType_def setPagesProperties_def flushAnnotations_def setWorkMode_def
        subscribeWorkMode_def fetchPDF_def render_def split: prod.splits\<close>)
qed

lemma counter_ok_run: "counter_ok (snd (run ops (h, initial)))"
proof -
  have "counter_ok (snd hs) \<Longrightarrow> counter_ok (snd (fold step ops hs))" for hs
    by (induction ops arbitrary: hs) (simp_all add: counter_ok_step)
  from this [of "(h, initial)"] show ?thesis
    by (simp add: run_def counter_ok_def initial_def)
qed

lemma getNextArticleID_times_min:
  "articleID s \<le> 2 ^ 53 \<Longrightarrow>
   getNextArticleID_times n s =
     (map (\<lambda>i. min (2 ^ 53) (articleID s + 1 + int i)) [0..<n],
      s\<lparr>articleID := min (2 ^ 53) (articleID s + int n)\<rparr>)"
proof (induction n arbitrary: s)
  case 0
  then show ?case by simp
next
  case (Suc n)
  let ?s' = "s\<lparr>articleID := number_inc (articleID s)\<rparr>"
  have inc: "number_inc (articleID s) = min (2 ^ 53) (articleID s + 1)"
    using Suc.prems by (simp add: number_inc_def min_def)
  have le: "articleID ?s' \<le> 2 ^ 53"
    by (simp add: inc)
  have shift: "min (2 ^ 53) (min (2 ^ 53) (articleID s + 1) + k) = min (2 ^ 53) (articleID s + 1 + k)"
    if "0 \<le> k" for k :: int
    using that Suc.prems by (simp add: min_def)
  have "map (\<lambda>i. min (2 ^ 53) (articleID s + 1 + int i)) [0..<Suc n] =
        min (2 ^ 53) (articleID s + 1) # map (\<lambda>i. min (2 ^ 53) (articleID s + 1 + (1 + int i))) [0..<n]"
    by (simp add: upt_conv_Cons map_Suc_upt [symmetric] del: upt_Suc)
  moreover have "map (\<lambda>i. min (2 ^ 53) (articleID ?s' + 1 + int i)) [0..<n] =
        map (\<lambda>i. min (2 ^ 53) (articleID s + 1 + (1 + int i))) [0..<n]"
    using shift by (simp add: inc add.assoc)
  moreover have "min (2 ^ 53) (articleID ?s' + int n) = min (2 ^ 53) (articleID s + int (Suc n))"
    using shift [of "int n"] by (simp add: inc add.assoc)
  ultimately show ?case
    using Suc.IH [OF le]
    by (simp add: getNextArticleID_def Let_def inc del: upt_Suc)
qed

lemma getNextArticleID_times_eq:
  assumes "articleID s + int n \<le> 2 ^ 53"
  shows "getNextArticleID_times n s =
     (map (\<lambda>i. articleID s + 1 + int i) [0..<n], s\<lparr>articleID := articleID s + int n\<rparr>)"
proof -
  from assms have le: "articleID s \<le> 2 ^ 53" by simp
  have "map (\<lambda>i. min (2 ^ 53) (articleID s + 1 + int i)) [0..<n] =
        map (\<lambda>i. articleID s + 1 + int i) [0..<n]"
    using assms by (auto simp: min_def)
  with assms show ?thesis
    by (simp add: getNextArticleID_times_min [OF le] min_def)
qed

text \<open>
  C7, as stated, fails for a number of calls beyond \<open>2^53\<close>: after \<open>2^53\<close> calls on the
  initial state the counter is \<open>2^53\<close>, the next two calls both return \<open>2^53\<close>, and so
  the values of \<open>2^53 + 2\<close> calls in a row are not pairwise distinct.
\<close>

theorem getNextArticleID_saturates:
  "articleID (snd (getNextArticleID_times (2 ^ 53) initial)) = 2 ^ 53 \<and>
   fst (getNextArticleID_times (Suc (Suc 0)) (snd (getNextArticleID_times (2 ^ 53) initial))) =
     [2 ^ 53, 2 ^ 53] \<and>
   \<not> distinct (fst (getNextArticleID_times (2 ^ 53 + 2) initial))"
proof -
  have init: "articleID initial \<le> 2 ^ 53" by (simp add: initial_def)
  have a: "articleID (snd (getNextArticleID_times (2 ^ 53) initial)) = 2 ^ 53"
    by (simp add: getNextArticleID_times_min [OF init]) (simp add: initial_def)
  have b: "fst (getNextArticleID_times (Suc (Suc 0)) (snd (getNextArticleID_times (2 ^ 53) initial))) =
     [2 ^ 53, 2 ^ 53]"
    using a by (simp add: getNextArticleID_def number_inc_def Let_def)
  let ?f = "\<lambda>i. min (2 ^ 53) (articleID initial + 1 + int i)"
  have "?f (2 ^ 53 - 1) = ?f (2 ^ 53)"
    by (simp add: initial_def)
  moreover have "(2 ^ 53 - 1 :: nat) \<in> set [0..<2 ^ 53 + 2]" "(2 ^ 53 :: nat) \<in> set [0..<2 ^ 53 + 2]"
    by simp_all
  moreover have "(2 ^ 53 - 1 :: nat) \<noteq> 2 ^ 53" by simp
  ultimately have "\<not> inj_on ?f (set [0..<2 ^ 53 + 2])"
    unfolding inj_on_def by blast
  then have c: "\<not> distinct (fst (getNextArticleID_times (2 ^ 53 + 2) initial))"
    by (simp only: getNextArticleID_times_min [OF init] fst_conv distinct_map) simp
  from a b c show ?thesis by simp
qed

text \<open>
  C7, amended. As long as the counter does not pass \<open>2^53\<close>, that is for \<open>n\<close> calls in a
  row from a state with \<open>0 \<le> articleID\<close> and \<open>articleID + n \<le> 2^53\<close> (up to \<open>2^53\<close> calls
  on a new or cleared service), the calls of \<open>getNextArticleID\<close> return \<open>n\<close> values, the counter plus
  1, 2, ..., \<open>n\<close>: strictly increasing and pairwise distinct. After \<open>clear\<close> the counter
  has its initial value 0, and the next call returns 1, as the first call on the initial
  state does.
\<close>

theorem getNextArticleID_fresh:
  "0 \<le> articleID s \<Longrightarrow> articleID s + int n \<le> 2 ^ 53 \<Longrightarrow>
   fst (getNextArticleID_times n s) = map (\<lambda>i. articleID s + 1 + int i) [0..<n] \<and>
   length (fst (getNextArticleID_times n s)) = n \<and>
   sorted_wrt (<) (fst (getNextArticleID_times n s)) \<and>
   distinct (fst (getNextArticleID_times n s)) \<and>
   articleID (clear s') = articleID initial \<and>
   fst (getNextArticleID (clear s')) = fst (getNextArticleID initial) \<and>
   fst (getNextArticleID initial) = 1"
proof -
  assume bound: "articleID s + int n \<le> 2 ^ 53"
  have "sorted_wrt (<) (map (\<lambda>i. articleID s + 1 + int i) [0..<n])"
    by (simp add: sorted_wrt_map)
  moreover have "distinct (map (\<lambda>i. articleID s + 1 + int i) [0..<n])"
    by (simp add: distinct_map inj_on_def)
  ultimately show ?thesis
    by (simp add: getNextArticleID_times_eq [OF bound] getNextArticleID_def number_inc_def
        clear_def initial_def)
qed

theorem getNextArticleID_fresh_witness:
  "0 \<le> articleID initial \<and>
   articleID initial + int 3 \<le> 2 ^ 53 \<and>
   fst (getNextArticleID_times 3 initial) = [1, 2, 3] \<and>
   sorted_wrt (<) (fst (getNextArticleID_times 3 initial)) \<and>
   distinct (fst (getNextArticleID_times 3 initial)) \<and>
   fst (getNextArticleID (clear (snd (getNextArticleID_times 3 initial)))) = 1"
  using getNextArticleID_fresh [of initial 3 "snd (getNextArticleID_times 3 initial)"]
  by (simp add: initial_def numeral_3_eq_3 getNextArticleID_def number_inc_def clear_def Let_def)

subsection \<open>The work mode\<close>

text \<open>
  C8. The work mode of the initial state is \<open>Create\<close>. After \<open>setWorkMode m\<close> the current
  mode is \<open>m\<close>, and a subscriber that arrives next receives \<open>m\<close> first: after
  \<open>setWorkMode Delete\<close> it receives \<open>Delete\<close>. After \<open>setAnnotationType\<close> the current mode
  is \<open>Create\<close>, whatever it was.
\<close>

theorem workMode_replay:
  "bs_value (workMode initial) = Create \<and>
   bs_value (workMode (setWorkMode m s)) = m \<and>
   bs_observers (workMode (subscribeWorkMode (setWorkMode m s))) =
     bs_observers (workMode (setWorkMode m s)) @ [[m]] \<and>
   last (bs_observers (workMode (subscribeWorkMode (setWorkMode Delete s)))) = [Delete] \<and>
   bs_value (workMode (setAnnotationType t s)) = Create \<and>
   last (bs_observers (workMode (subscribeWorkMode (setAnnotationType t s)))) = [Create]"
  by (simp add: initial_def bs_new_def bs_next_def bs_subscribe_def setWorkMode_def
      subscribeWorkMode_def setAnnotationType_def)

subsection \<open>Adding and listing regions\<close>

lemma map_assign_copy_eq:
  "list_all (\<lambda>r. r < length h) rs \<Longrightarrow>
   map_assign_copy rs h = ([length h ..< length h + length rs], h @ map (\<lambda>r. h ! r) rs)"
proof (induction rs arbitrary: h)
  case Nil
  then show ?case by simp
next
  case (Cons r rs)
  from Cons.prems have r: "r < length h" and rs: "list_all (\<lambda>q. q < length h) rs" by simp_all
  let ?h1 = "h @ [h ! r]"
  have rs1: "list_all (\<lambda>q. q < length ?h1) rs"
    using rs by (auto simp: list_all_iff)
  have same: "map (\<lambda>q. ?h1 ! q) rs = map (\<lambda>q. h ! q) rs"
    using rs by (simp add: list_all_iff nth_append)
  have "map_assign_copy rs ?h1 = ([length ?h1 ..< length ?h1 + length rs], ?h1 @ map (\<lambda>q. ?h1 ! q) rs)"
    by (rule Cons.IH [OF rs1])
  moreover have "[length h ..< length h + length (r # rs)] =
      length h # [length ?h1 ..< length ?h1 + length rs]"
    by (simp add: upt_conv_Cons del: upt_Suc)
  ultimately show ?case
    by (simp add: assign_copy_def alloc_def same del: upt_Suc)
qed

lemma serialized_append_heap:
  "list_all (\<lambda>r. r < length h) rs \<Longrightarrow> serialized (h @ vs) rs = serialized h rs"
  by (simp add: serialized_def list_all_iff nth_append)

lemma serialized_mutate_fresh:
  "list_all (\<lambda>r. r < n) rs \<Longrightarrow> n \<le> q \<Longrightarrow> serialized (mutate q v h) rs = serialized h rs"
  by (auto simp: serialized_def mutate_def list_all_iff)

lemma serialized_filter:
  "serialized h (filter (\<lambda>r. P (h ! r)) rs) = filter P (serialized h rs)"
  by (simp add: serialized_def filter_map comp_def)

lemma serialized_fresh_block:
  "serialized (h @ vs) [length h ..< length h + length vs] = vs"
  unfolding serialized_def by (rule nth_equalityI) (simp_all add: nth_append)

lemma getAnnotations_eq:
  assumes "wf h s"
  shows "getAnnotations page h s =
     (let rs = filter (\<lambda>r. a_page (h ! r) = page) (annotations s)
      in ([length h ..< length h + length rs], h @ serialized h rs))"
proof -
  have "list_all (\<lambda>r. r < length h) (filter (\<lambda>r. a_page (h ! r) = page) (annotations s))"
    using assms by (simp add: wf_def list_all_iff)
  then show ?thesis
    by (simp add: getAnnotations_def map_assign_copy_eq serialized_def Let_def)
qed

lemma getAnnotations_values:
  assumes "wf h s"
  shows "serialized (snd (getAnnotations page h s)) (fst (getAnnotations page h s)) =
         filter (\<lambda>a. a_page a = page) (serialized h (annotations s))"
proof -
  let ?rs = "filter (\<lambda>r. a_page (h ! r) = page) (annotations s)"
  have len: "length (serialized h ?rs) = length ?rs"
    by (simp add: serialized_def)
  have "serialized (h @ serialized h ?rs) [length h ..< length h + length (serialized h ?rs)] =
        serialized h ?rs"
    by (rule serialized_fresh_block)
  then have "serialized (h @ serialized h ?rs) [length h ..< length h + length ?rs] =
        serialized h ?rs"
    by (simp only: len)
  moreover have "serialized h ?rs = filter (\<lambda>a. a_page a = page) (serialized h (annotations s))"
    by (rule serialized_filter)
  ultimately show ?thesis
    by (simp add: getAnnotations_eq [OF assms] Let_def)
qed

lemma setAnnotation_eq:
  "setAnnotation r (h, s) = (h @ [h ! r], s\<lparr>annotations := annotations s @ [length h]\<rparr>)"
  by (simp add: setAnnotation_def assign_copy_def alloc_def)

lemma wf_setAnnotation:
  "wf h s \<Longrightarrow> wf (fst (setAnnotation r (h, s))) (snd (setAnnotation r (h, s)))"
  by (auto simp: setAnnotation_eq wf_def list_all_iff)

lemma setAnnotation_values:
  assumes "wf h s"
  shows "serialized (fst (setAnnotation r (h, s))) (annotations (snd (setAnnotation r (h, s)))) =
         serialized h (annotations s) @ [h ! r]"
proof -
  have "serialized (h @ [h ! r]) (annotations s) = serialized h (annotations s)"
    using assms by (simp add: serialized_append_heap wf_def)
  then show ?thesis
    by (simp add: setAnnotation_eq) (simp add: serialized_def)
qed

lemma getAnnotations_isolated:
  assumes "wf h s" and "q \<in> set (fst (getAnnotations p h s))"
  shows "serialized (mutate q v (snd (getAnnotations p h s))) (annotations s) =
         serialized h (annotations s)"
proof -
  from assms have "length h \<le> q"
    by (simp add: getAnnotations_eq Let_def)
  with assms(1) have "serialized (mutate q v (snd (getAnnotations p h s))) (annotations s) =
      serialized (snd (getAnnotations p h s)) (annotations s)"
    by (simp add: serialized_mutate_fresh wf_def)
  also have "\<dots> = serialized h (annotations s)"
    using assms(1) by (simp add: getAnnotations_eq Let_def serialized_append_heap wf_def)
  finally show ?thesis .
qed

text \<open>Liveness of the stored references holds in every state that calls can reach.\<close>

lemma wf_fold_setAnnotation:
  "wf (fst hs) (snd hs) \<Longrightarrow> wf (fst (fold setAnnotation rs hs)) (snd (fold setAnnotation rs hs))"
proof (induction rs arbitrary: hs)
  case Nil
  then show ?case by simp
next
  case (Cons r rs)
  have "wf (fst (setAnnotation r hs)) (snd (setAnnotation r hs))"
    using Cons.prems wf_setAnnotation [of "fst hs" "snd hs" r] by simp
  then show ?case by (simp add: Cons.IH)
qed

lemma wf_remove: "wf h s \<Longrightarrow> wf h (remove x y page h s)"
  by (simp add: wf_def remove_def removeArticle_def Let_def list_all_iff split: option.splits)

lemma wf_step:
  "wf (fst hs) (snd hs) \<Longrightarrow> wf (fst (step op hs)) (snd (step op hs))"
proof (cases hs)
  case (Pair h s)
  assume "wf (fst hs) (snd hs)"
  with Pair have wf: "wf h s" by simp
  show ?thesis
  proof (cases op)
    case (OpSetServerAnnotations rs)
    with wf Pair wf_fold_setAnnotation [of "(h, s)" rs] show ?thesis
      by (simp add: setServerAnnotations_def)
  next
    case (OpSetAnnotation r)
    with wf Pair show ?thesis by (simp add: wf_setAnnotation)
  next
    case (OpGetAnnotations page)
    with wf Pair show ?thesis
      by (auto simp: getAnnotations_eq Let_def wf_def list_all_iff)
  next
    case (OpRemove x y page)
    with wf Pair show ?thesis by (simp add: wf_remove)
  next
    case (OpMutate r v)
    with wf Pair show ?thesis by (simp add: wf_def mutate_def)
  qed (use wf Pair in \<open>simp_all add: wf_def clear_def setAnnotationType_def
        setPagesProperties_def flushAnnotations_def getNextArticleID_def Let_def
        setWorkMode_def subscribeWorkMode_def fetchPDF_def render_def\<close>)
qed

lemma wf_run: "wf (fst (run ops (h, initial))) (snd (run ops (h, initial)))"
proof -
  have "wf (fst hs) (snd hs) \<Longrightarrow> wf (fst (fold step ops hs)) (snd (fold step ops hs))" for hs
    by (induction ops arbitrary: hs) (simp_all add: wf_step)
  from this [of "(h, initial)"] show ?thesis
    by (simp add: run_def wf_def initial_def)
qed

text \<open>
  C9. In a store whose references are all live: \<open>setAnnotation r\<close> appends a copy of the
  region \<open>r\<close> to the regions of the store, and \<open>getAnnotations\<close> of the page of \<open>r\<close> then
  returns a region with the field values of \<open>r\<close>; \<open>getAnnotations p\<close> returns, in the
  order of the store (the order of insertion), regions with the field values of exactly
  the stored regions whose page is \<open>p\<close>; and the returned regions are new objects, so
  that an assignment to any of them leaves the regions of the store as they were.
\<close>

theorem getAnnotations_copies:
  "wf h s \<Longrightarrow>
   h ! r \<in> set (serialized
                  (snd (getAnnotations (a_page (h ! r)) (fst (setAnnotation r (h, s)))
                          (snd (setAnnotation r (h, s)))))
                  (fst (getAnnotations (a_page (h ! r)) (fst (setAnnotation r (h, s)))
                          (snd (setAnnotation r (h, s)))))) \<and>
   serialized (fst (setAnnotation r (h, s))) (annotations (snd (setAnnotation r (h, s)))) =
     serialized h (annotations s) @ [h ! r] \<and>
   serialized (snd (getAnnotations p h s)) (fst (getAnnotations p h s)) =
     filter (\<lambda>a. a_page a = p) (serialized h (annotations s)) \<and>
   (\<forall>q\<in>set (fst (getAnnotations p h s)). \<forall>v.
      q \<notin> set (annotations s) \<and>
      serialized (mutate q v (snd (getAnnotations p h s))) (annotations s) =
        serialized h (annotations s))"
proof (intro conjI ballI allI)
  assume wf: "wf h s"
  let ?hs = "setAnnotation r (h, s)"
  have wf1: "wf (fst ?hs) (snd ?hs)" by (rule wf_setAnnotation [OF wf])
  show "h ! r \<in> set (serialized (snd (getAnnotations (a_page (h ! r)) (fst ?hs) (snd ?hs)))
                        (fst (getAnnotations (a_page (h ! r)) (fst ?hs) (snd ?hs))))"
    by (simp add: getAnnotations_values [OF wf1] setAnnotation_values [OF wf])
  show "serialized (fst ?hs) (annotations (snd ?hs)) = serialized h (annotations s) @ [h ! r]"
    by (rule setAnnotation_values [OF wf])
  show "serialized (snd (getAnnotations p h s)) (fst (getAnnotations p h s)) =
         filter (\<lambda>a. a_page a = p) (serialized h (annotations s))"
    by (rule getAnnotations_values [OF wf])
  fix q v
  assume q: "q \<in> set (fst (getAnnotations p h s))"
  then have "length h \<le> q"
    using wf by (simp add: getAnnotations_eq Let_def)
  with wf show "q \<notin> set (annotations s)"
    by (auto simp: wf_def list_all_iff)
  show "serialized (mutate q v (snd (getAnnotations p h s))) (annotations s) =
        serialized h (annotations s)"
    by (rule getAnnotations_isolated [OF wf q])
qed

theorem getAnnotations_copies_witness:
  "wf ex_heap ex_store \<and>
   ex_heap ! 1 \<in> set (serialized
                  (snd (getAnnotations 0 (fst (setAnnotation 1 (ex_heap, ex_store)))
                          (snd (setAnnotation 1 (ex_heap, ex_store)))))
                  (fst (getAnnotations 0 (fst (setAnnotation 1 (ex_heap, ex_store)))
                          (snd (setAnnotation 1 (ex_heap, ex_store)))))) \<and>
   fst (getAnnotations 0 ex_heap ex_store) = [4, 5, 6] \<and>
   serialized (snd (getAnnotations 0 ex_heap ex_store)) [4, 5, 6] =
     [ex_heap ! 0, ex_heap ! 1, ex_heap ! 3] \<and>
   serialized (mutate 5 (region 0 0 0 0 9 Undefined None) (snd (getAnnotations 0 ex_heap ex_store)))
     (annotations ex_store) = ex_heap"
  using getAnnotations_copies [of ex_heap ex_store 1 0]
  by (simp add: ex_defs wf_def getAnnotations_def setAnnotation_def assign_copy_def alloc_def
      serialized_def mutate_def)

subsection \<open>Saving\<close>

text \<open>
  C10. The body that \<open>saveMetadata\<close> posts has the two fields \<open>payload\<close> and
  \<open>pagesProperties\<close>: the payload is the list of the stored regions whose tag is not
  \<open>article\<close>, in the order of the store (a region without tag is in it, a region tagged
  \<open>article\<close> is not), and \<open>pagesProperties\<close> is the whole page registry.
\<close>

theorem saveMetadata_envelope:
  "saveMetadata ident h s =
     (''/api/training/metadata/'' @ ident,
      \<lparr>env_payload =
         filter (\<lambda>r. a_tag (h ! r) \<noteq> Some (AnnotationType_value Article)) (annotations s),
       env_pagesProperties = pagesProperties s\<rparr>) \<and>
   serialized h (env_payload (snd (saveMetadata ident h s))) =
     filter (\<lambda>a. a_tag a \<noteq> Some (AnnotationType_value Article)) (serialized h (annotations s)) \<and>
   set (env_payload (snd (saveMetadata ident h s))) =
     {r \<in> set (annotations s). a_tag (h ! r) \<noteq> Some (AnnotationType_value Article)} \<and>
   {r \<in> set (annotations s). a_tag (h ! r) = None}
     \<subseteq> set (env_payload (snd (saveMetadata ident h s)))"
proof -
  have "serialized h (filter (\<lambda>r. a_tag (h ! r) \<noteq> Some (AnnotationType_value Article)) (annotations s)) =
        filter (\<lambda>a. a_tag a \<noteq> Some (AnnotationType_value Article)) (serialized h (annotations s))"
    by (rule serialized_filter)
  then show ?thesis
    by (auto simp: saveMetadata_def Let_def)
qed

end
